theory Spec2Isabelle
  imports Main "HOL-Library.AList"
begin

section \<open>JavaScript values\<close>

text \<open>
  Both handlers work on untyped values (\<^verbatim>\<open>any\<close>): document payloads, the request of
  a control record, the response of a search. They are modelled by one datatype.
  An object is an association list from property names to values: a property is read
  with \<open>map_of\<close>, written with \<open>AList.update\<close> (in place when the name is there, at
  the end otherwise) and removed with \<open>AList.delete\<close>. Numbers are the integral ones;
  a \<^verbatim>\<open>Date\<close> is its number of milliseconds since the epoch.
\<close>

datatype jsvalue =
    JUndefined
  | JNull
  | JBool bool
  | JNum int
  | JStr string
  | JDate int
  | JArr "jsvalue list"
  | JObj "(string \<times> jsvalue) list"

type_synonym fields = "(string \<times> jsvalue) list"

text \<open>What \<^verbatim>\<open>if (v)\<close> and \<^verbatim>\<open>!v\<close> test: every value is truthy except
  \<^verbatim>\<open>undefined\<close>, \<^verbatim>\<open>null\<close>, \<^verbatim>\<open>false\<close>, \<^verbatim>\<open>0\<close> and the empty string.\<close>

fun truthy :: "jsvalue \<Rightarrow> bool" where
  "truthy JUndefined = False"
| "truthy JNull = False"
| "truthy (JBool b) = b"
| "truthy (JNum n) = (n \<noteq> 0)"
| "truthy (JStr s) = (s \<noteq> [])"
| "truthy (JDate t) = True"
| "truthy (JArr xs) = True"
| "truthy (JObj kvs) = True"

text \<open>\<^verbatim>\<open>data[key]\<close> on an object given by its own properties: a missing one reads
  as \<^verbatim>\<open>undefined\<close>.\<close>

definition own :: "fields \<Rightarrow> string \<Rightarrow> jsvalue" where
  "own kvs key = (case map_of kvs key of Some v \<Rightarrow> v | None \<Rightarrow> JUndefined)"

text \<open>
  What a statement of the handlers can throw. \<open>Unmodelled\<close> marks the few inputs whose
  outcome depends on parts of the runtime or of the store that are left out (how an array
  or a date is rendered as a string, a property set on a value that is not a plain
  object, an object whose prototype was replaced).
\<close>

datatype js_error = TypeError | Unmodelled

text \<open>
  \<^verbatim>\<open>this.listeners = {}\<close> is a plain object: read under a name it does not hold itself,
  it gives the member it inherits from \<^verbatim>\<open>Object.prototype\<close>, if there is one of that name.
  Such a member is truthy. A prototype is given by what \<^verbatim>\<open>.call()\<close> on the member does,
  the only use the handler makes of it: \<open>None\<close> when no member of that name is inherited,
  \<open>Some True\<close> when the call throws a \<^verbatim>\<open>TypeError\<close>, \<open>Some False\<close> when it returns.
\<close>

type_synonym prototype = "string \<Rightarrow> bool option"

text \<open>
  \<^verbatim>\<open>Object.prototype\<close>. Called with no receiver, \<^verbatim>\<open>valueOf\<close>, \<^verbatim>\<open>hasOwnProperty\<close>,
  \<^verbatim>\<open>propertyIsEnumerable\<close>, \<^verbatim>\<open>toLocaleString\<close> and the four \<^verbatim>\<open>__define\<close>/\<^verbatim>\<open>__lookup\<close>
  methods convert \<^verbatim>\<open>undefined\<close> to an object and throw; \<^verbatim>\<open>__proto__\<close> reads as the
  prototype itself, which has no \<^verbatim>\<open>call\<close>; \<^verbatim>\<open>constructor\<close>, \<^verbatim>\<open>isPrototypeOf\<close> and
  \<^verbatim>\<open>toString\<close> return.
\<close>

definition Object_prototype :: prototype where
  "Object_prototype name =
     (if name \<in> set [''valueOf'', ''hasOwnProperty'', ''propertyIsEnumerable'', ''toLocaleString'',
                       ''__defineGetter__'', ''__defineSetter__'', ''__lookupGetter__'',
                       ''__lookupSetter__'', ''__proto__'']
      then Some True
      else if name \<in> set [''constructor'', ''isPrototypeOf'', ''toString'']
      then Some False
      else None)"

section \<open>Snapshots, change events and the reference descriptor\<close>

text \<open>
  A document snapshot is the document's id and what \<^verbatim>\<open>doc.data()\<close> returns. A change of
  a batch (\<^verbatim>\<open>snap.docChanges()\<close>) carries its \<^verbatim>\<open>type\<close> and the document.
\<close>

record doc_snapshot =
  doc_id :: string
  doc_data :: fields

datatype change_type = Added | Modified | Removed

record change =
  change_type :: change_type
  doc :: doc_snapshot

text \<open>
  The fields of \<^verbatim>\<open>Reference\<close> that \<^verbatim>\<open>FirestoreCollectionHandler\<close> reads. An optional
  field that is not set is \<open>None\<close>. \<^verbatim>\<open>index\<close> and \<^verbatim>\<open>type\<close> are a string or a function
  of the batch and the parent snapshot (\<^verbatim>\<open>undefined\<close>, here \<open>None\<close>, for a root
  collection). A query is the path it reads, and a builder maps a query to a query.
\<close>

type_synonym query = string

datatype dynamic = Literal string | Computed "change list \<Rightarrow> doc_snapshot option \<Rightarrow> string"

record reference =
  collection :: string
  subcollection :: "string option"
  subBuilder :: "(query \<Rightarrow> query) option"
  index :: dynamic
  type :: dynamic
  include' :: "string list option"
  exclude :: "string list option"
  filter_fn :: "(fields \<Rightarrow> bool) option"
  transform :: "(jsvalue \<Rightarrow> doc_snapshot option \<Rightarrow> jsvalue) option"

section \<open>The record pipeline: \<^verbatim>\<open>FirestoreCollectionHandler.filter\<close>\<close>

text \<open>
  \<^verbatim>\<open>filter(data)\<close> returns \<^verbatim>\<open>null\<close> (here \<open>None\<close>) when the descriptor's filter says
  no. Otherwise it walks \<^verbatim>\<open>Object.keys(data)\<close> and deletes every key that is not in
  \<^verbatim>\<open>include\<close>, then walks \<^verbatim>\<open>exclude\<close> and deletes a key \<^verbatim>\<open>if (data[key])\<close>.
\<close>

definition include_step :: "string list \<Rightarrow> string \<Rightarrow> fields \<Rightarrow> fields" where
  "include_step inc key data = (if key \<notin> set inc then AList.delete key data else data)"

definition exclude_step :: "string \<Rightarrow> fields \<Rightarrow> fields" where
  "exclude_step key data = (if truthy (own data key) then AList.delete key data else data)"

definition filter_data :: "reference \<Rightarrow> fields \<Rightarrow> fields option" where
  "filter_data r data =
     (let shouldInsert = (case filter_fn r of Some f \<Rightarrow> f data | None \<Rightarrow> True)
      in if \<not> shouldInsert then None
         else
           let data1 = (case include' r of
                          Some inc \<Rightarrow> fold (include_step inc) (map fst data) data
                        | None \<Rightarrow> data);
               data2 = (case exclude r of
                          Some exc \<Rightarrow> fold exclude_step exc data1
                        | None \<Rightarrow> data1)
           in Some data2)"

section \<open>The sink and the handler's state\<close>

text \<open>
  The calls \<^verbatim>\<open>FirestoreCollectionHandler\<close> makes on the search client, each with the
  \<^verbatim>\<open>id\<close>, \<^verbatim>\<open>index\<close> and \<^verbatim>\<open>type\<close> it passes; \<open>Update\<close> also carries its \<^verbatim>\<open>body\<close>
  and \<^verbatim>\<open>retryOnConflict\<close>, \<open>Index\<close> its \<^verbatim>\<open>body\<close>.
\<close>

datatype sink_call =
    Exists string string string
  | Index string string string jsvalue
  | Update string string string jsvalue nat
  | Delete string string string

text \<open>
  The client is not under the handler's control: it is any function from the calls
  made so far and the call at hand to either a rejection, with the error's
  \<^verbatim>\<open>message\<close>, or a reply (the boolean is what \<^verbatim>\<open>exists\<close> resolves to).
\<close>

type_synonym sink = "sink_call list \<Rightarrow> sink_call \<Rightarrow> string + bool"

text \<open>
  A handler that waits at an \<^verbatim>\<open>await\<close>: \<^verbatim>\<open>handleAdded\<close> at \<^verbatim>\<open>client.exists\<close>, with the
  document id, the index, the type and the body it goes on with; or any of the three at
  its last call, with its tag and the document id, all that its \<^verbatim>\<open>catch\<close> uses.
\<close>

datatype awaiting =
    AwaitExists string string string jsvalue
  | AwaitWrite string string

text \<open>
  What the handler owns or leaves behind: the \<^verbatim>\<open>listeners\<close> object (parent id to the
  handle \<^verbatim>\<open>onSnapshot\<close> returned, a handle being the position of its subscription in
  \<open>opened\<close>), the subscriptions opened on subcollections (the query and the parent
  snapshot bound to its callback), the handles that were called, the calls made on the
  sink, the lines given to \<^verbatim>\<open>console.error\<close>, and the handlers that wait for the sink.
\<close>

record handler =
  listeners :: "(string \<times> nat) list"
  opened :: "(query \<times> doc_snapshot) list"
  cancelled :: "nat list"
  calls :: "sink_call list"
  errors :: "string list"
  pending :: "awaiting list"

definition perform :: "sink \<Rightarrow> sink_call \<Rightarrow> handler \<Rightarrow> (string + bool) \<times> handler" where
  "perform sink c s = (sink (calls s) c, s\<lparr>calls := calls s @ [c]\<rparr>)"

definition console_error :: "string \<Rightarrow> handler \<Rightarrow> handler" where
  "console_error line s = s\<lparr>errors := errors s @ [line]\<rparr>"

definition error_line :: "string \<Rightarrow> string \<Rightarrow> string \<Rightarrow> string" where
  "error_line kind ident message =
     ''Error in `'' @ kind @ ''` handler [doc@'' @ ident @ '']: '' @ message"

section \<open>The subscription registry: \<^verbatim>\<open>handleBindingSubcollection\<close>\<close>

text \<open>
  \<^verbatim>\<open>handleBindingSubcollection\<close> is \<^verbatim>\<open>async\<close> and awaits nothing: it either completes or
  rejects with what a step of its \<^verbatim>\<open>forEach\<close> threw, the later changes of the batch not
  looked at.
\<close>

datatype registry_outcome = Completes handler | Rejects js_error handler

text \<open>
  One step of the \<^verbatim>\<open>forEach\<close> over the changes of the parent collection. The template
  string renders an unset \<^verbatim>\<open>subcollection\<close> as \<^verbatim>\<open>undefined\<close>. On Added, the assignment
  \<^verbatim>\<open>this.listeners[id] = ...\<close> makes or replaces the entry, except under \<^verbatim>\<open>__proto__\<close>, where
  it replaces the prototype (not a document id the store accepts; left out). On Removed,
  \<^verbatim>\<open>this.listeners[id]\<close> is the entry or else the inherited member, and \<^verbatim>\<open>.call()\<close> runs
  the handle or that member.
\<close>

definition binding_change :: "prototype \<Rightarrow> reference \<Rightarrow> change \<Rightarrow> handler \<Rightarrow> registry_outcome" where
  "binding_change proto r c s =
     (case change_type c of
        Added \<Rightarrow>
          (let subref = collection r @ ''/'' @ doc_id (doc c) @ ''/'' @
                          (case subcollection r of Some sub \<Rightarrow> sub | None \<Rightarrow> ''undefined'');
               subref' = (case subBuilder r of Some b \<Rightarrow> b subref | None \<Rightarrow> subref);
               handle = length (opened s)
           in if doc_id (doc c) = ''__proto__'' then Rejects Unmodelled s
              else Completes
                     (s\<lparr>opened := opened s @ [(subref', doc c)],
                        listeners := AList.update (doc_id (doc c)) handle (listeners s)\<rparr>))
      | Removed \<Rightarrow>
          (case map_of (listeners s) (doc_id (doc c)) of
             Some handle \<Rightarrow> Completes (s\<lparr>cancelled := cancelled s @ [handle]\<rparr>)
           | None \<Rightarrow>
               (case proto (doc_id (doc c)) of
                  None \<Rightarrow> Completes s
                | Some throws \<Rightarrow> if throws then Rejects TypeError s else Completes s))
      | Modified \<Rightarrow> Completes s)"

fun handleBindingSubcollection :: "prototype \<Rightarrow> reference \<Rightarrow> change list \<Rightarrow> handler \<Rightarrow> registry_outcome" where
  "handleBindingSubcollection proto r [] s = Completes s"
| "handleBindingSubcollection proto r (c # snap) s =
     (case binding_change proto r c s of
        Rejects e s' \<Rightarrow> Rejects e s'
      | Completes s' \<Rightarrow> handleBindingSubcollection proto r snap s')"

section \<open>The change dispatcher: \<^verbatim>\<open>handleSnapshot\<close> and its three handlers\<close>

text \<open>
  First each handler followed on its own from its first line to its last, the sink
  answering each call as it is made. A rejected call is the \<open>Inl\<close> reply; the
  \<^verbatim>\<open>catch\<close> turns it into a line of \<^verbatim>\<open>console.error\<close>.
\<close>

definition handleAdded ::
  "sink \<Rightarrow> reference \<Rightarrow> doc_snapshot \<Rightarrow> doc_snapshot option \<Rightarrow> string \<Rightarrow> string \<Rightarrow> handler \<Rightarrow> handler" where
  "handleAdded sink r d parentSnap idx ty s =
     (case filter_data r (doc_data d) of
        None \<Rightarrow> s
      | Some data \<Rightarrow>
          (let body = (case transform r of Some t \<Rightarrow> t (JObj data) parentSnap | None \<Rightarrow> JObj data)
           in case perform sink (Exists (doc_id d) idx ty) s of
                (Inl e, s1) \<Rightarrow> console_error (error_line ''FS_ADDED'' (doc_id d) e) s1
              | (Inr exists, s1) \<Rightarrow>
                  if exists
                  then (case perform sink
                               (Update (doc_id d) idx ty
                                  (JObj [(''doc'', body), (''doc_as_upsert'', JBool True)]) 2) s1 of
                          (Inl e, s2) \<Rightarrow> console_error (error_line ''FS_ADDED'' (doc_id d) e) s2
                        | (Inr _, s2) \<Rightarrow> s2)
                  else (case perform sink (Index (doc_id d) idx ty body) s1 of
                          (Inl e, s2) \<Rightarrow> console_error (error_line ''FS_ADDED'' (doc_id d) e) s2
                        | (Inr _, s2) \<Rightarrow> s2)))"

definition handleModified ::
  "sink \<Rightarrow> reference \<Rightarrow> doc_snapshot \<Rightarrow> doc_snapshot option \<Rightarrow> string \<Rightarrow> string \<Rightarrow> handler \<Rightarrow> handler" where
  "handleModified sink r d parentSnap idx ty s =
     (case filter_data r (doc_data d) of
        None \<Rightarrow> s
      | Some data \<Rightarrow>
          (let body = (case transform r of Some t \<Rightarrow> t (JObj data) parentSnap | None \<Rightarrow> JObj data)
           in case perform sink (Update (doc_id d) idx ty (JObj [(''doc'', body)]) 2) s of
                (Inl e, s1) \<Rightarrow> console_error (error_line ''FS_MODIFIED'' (doc_id d) e) s1
              | (Inr _, s1) \<Rightarrow> s1))"

definition handleRemoved :: "sink \<Rightarrow> doc_snapshot \<Rightarrow> string \<Rightarrow> string \<Rightarrow> handler \<Rightarrow> handler" where
  "handleRemoved sink d idx ty s =
     (case perform sink (Delete (doc_id d) idx ty) s of
        (Inl e, s1) \<Rightarrow> console_error (error_line ''FS_REMOVE'' (doc_id d) e) s1
      | (Inr _, s1) \<Rightarrow> s1)"

definition resolve :: "dynamic \<Rightarrow> change list \<Rightarrow> doc_snapshot option \<Rightarrow> string" where
  "resolve n snap parentSnap = (case n of Literal name \<Rightarrow> name | Computed f \<Rightarrow> f snap parentSnap)"

text \<open>
  Then the handlers as the event loop runs them. The three handlers are \<^verbatim>\<open>async\<close> and the
  \<^verbatim>\<open>forEach\<close> of \<^verbatim>\<open>handleSnapshot\<close> does not await them: the call of a handler runs it up to
  its first \<^verbatim>\<open>await\<close>, where its first call on the sink has been made, and returns; the
  next change is then looked at. \<open>suspend\<close> is that point: the call is made and the
  handler waits.
\<close>

definition suspend :: "sink_call \<Rightarrow> awaiting \<Rightarrow> handler \<Rightarrow> handler" where
  "suspend c t s = s\<lparr>calls := calls s @ [c], pending := pending s @ [t]\<rparr>"

definition start_added ::
  "reference \<Rightarrow> doc_snapshot \<Rightarrow> doc_snapshot option \<Rightarrow> string \<Rightarrow> string \<Rightarrow> handler \<Rightarrow> handler" where
  "start_added r d parentSnap idx ty s =
     (case filter_data r (doc_data d) of
        None \<Rightarrow> s
      | Some data \<Rightarrow>
          (let body = (case transform r of Some t \<Rightarrow> t (JObj data) parentSnap | None \<Rightarrow> JObj data)
           in suspend (Exists (doc_id d) idx ty) (AwaitExists (doc_id d) idx ty body) s))"

definition start_modified ::
  "reference \<Rightarrow> doc_snapshot \<Rightarrow> doc_snapshot option \<Rightarrow> string \<Rightarrow> string \<Rightarrow> handler \<Rightarrow> handler" where
  "start_modified r d parentSnap idx ty s =
     (case filter_data r (doc_data d) of
        None \<Rightarrow> s
      | Some data \<Rightarrow>
          (let body = (case transform r of Some t \<Rightarrow> t (JObj data) parentSnap | None \<Rightarrow> JObj data)
           in suspend (Update (doc_id d) idx ty (JObj [(''doc'', body)]) 2)
                (AwaitWrite ''FS_MODIFIED'' (doc_id d)) s))"

definition start_removed :: "doc_snapshot \<Rightarrow> string \<Rightarrow> string \<Rightarrow> handler \<Rightarrow> handler" where
  "start_removed d idx ty s =
     suspend (Delete (doc_id d) idx ty) (AwaitWrite ''FS_REMOVE'' (doc_id d)) s"

text \<open>One step of the \<^verbatim>\<open>forEach\<close> of \<^verbatim>\<open>handleSnapshot\<close>, and the whole of it.\<close>

definition start ::
  "reference \<Rightarrow> doc_snapshot option \<Rightarrow> change list \<Rightarrow> change \<Rightarrow> handler \<Rightarrow> handler" where
  "start r parentSnap snap c s =
     (let idx = resolve (index r) snap parentSnap;
          ty = resolve (type r) snap parentSnap
      in case change_type c of
           Added \<Rightarrow> start_added r (doc c) parentSnap idx ty s
         | Modified \<Rightarrow> start_modified r (doc c) parentSnap idx ty s
         | Removed \<Rightarrow> start_removed (doc c) idx ty s)"

definition handleSnapshot ::
  "reference \<Rightarrow> doc_snapshot option \<Rightarrow> change list \<Rightarrow> handler \<Rightarrow> handler" where
  "handleSnapshot r parentSnap snap s = fold (start r parentSnap snap) snap s"

text \<open>
  Later the sink settles a call, in whatever order and with whatever result, and the
  handler that waits for it goes on: \<open>resume n result\<close> runs the \<open>n\<close>-th waiting handler
  from its \<^verbatim>\<open>await\<close> to its next one or to its end, \<open>result\<close> being the rejection or the
  reply. A handler that ends waits no more.
\<close>

definition finish :: "nat \<Rightarrow> handler \<Rightarrow> handler" where
  "finish n s = s\<lparr>pending := take n (pending s) @ drop (Suc n) (pending s)\<rparr>"

definition resume :: "nat \<Rightarrow> string + bool \<Rightarrow> handler \<Rightarrow> handler" where
  "resume n result s =
     (if n < length (pending s)
      then (case pending s ! n of
              AwaitExists ident idx ty body \<Rightarrow>
                (case result of
                   Inl e \<Rightarrow> console_error (error_line ''FS_ADDED'' ident e) (finish n s)
                 | Inr exists \<Rightarrow>
                     s\<lparr>calls := calls s @
                          [if exists
                           then Update ident idx ty (JObj [(''doc'', body), (''doc_as_upsert'', JBool True)]) 2
                           else Index ident idx ty body],
                       pending := (pending s)[n := AwaitWrite ''FS_ADDED'' ident]\<rparr>)
            | AwaitWrite tag ident \<Rightarrow>
                (case result of
                   Inl e \<Rightarrow> console_error (error_line tag ident e) (finish n s)
                 | Inr _ \<Rightarrow> finish n s))
      else s)"

text \<open>The sink of the first reading, settling the one call that is waited for.\<close>

definition answer :: "sink \<Rightarrow> handler \<Rightarrow> handler" where
  "answer sink s =
     (if pending s = [] then s else resume 0 (sink (butlast (calls s)) (last (calls s))) s)"

section \<open>Reading values in the query bridge\<close>

text \<open>
  \<^verbatim>\<open>v.name\<close>: a \<^verbatim>\<open>TypeError\<close> on \<^verbatim>\<open>undefined\<close> and \<^verbatim>\<open>null\<close>, the own property of an
  object, \<^verbatim>\<open>undefined\<close> on anything else. It is used at the names \<^verbatim>\<open>index\<close>, \<^verbatim>\<open>type\<close>,
  \<^verbatim>\<open>q\<close>, \<^verbatim>\<open>body\<close>, \<^verbatim>\<open>error\<close>, \<^verbatim>\<open>hits\<close> and \<^verbatim>\<open>_id\<close>, which no string, number, boolean,
  date or array has.
\<close>

definition read_prop :: "jsvalue \<Rightarrow> string \<Rightarrow> js_error + jsvalue" where
  "read_prop v name =
     (case v of
        JUndefined \<Rightarrow> Inl TypeError
      | JNull \<Rightarrow> Inl TypeError
      | JObj kvs \<Rightarrow> Inr (own kvs name)
      | _ \<Rightarrow> Inr JUndefined)"

text \<open>\<^verbatim>\<open>typeof v === 'object'\<close>.\<close>

fun typeof_object :: "jsvalue \<Rightarrow> bool" where
  "typeof_object JNull = True"
| "typeof_object (JDate t) = True"
| "typeof_object (JArr xs) = True"
| "typeof_object (JObj kvs) = True"
| "typeof_object v = False"

text \<open>The decimal digits of a number.\<close>

fun digits :: "nat \<Rightarrow> string" where
  "digits n = (if n < 10 then [char_of (48 + n)] else digits (n div 10) @ [char_of (48 + n mod 10)])"

text \<open>
  \<^verbatim>\<open>String(v)\<close>, which is also the property name in \<^verbatim>\<open>temp[v]\<close>. \<open>None\<close> where the
  rendering is left out: numbers from \<open>2\<^sup>5\<^sup>3\<close> on (not every integer is a number there),
  arrays, dates, and objects with a \<^verbatim>\<open>toString\<close> of their own.
\<close>

fun String :: "jsvalue \<Rightarrow> string option" where
  "String JUndefined = Some ''undefined''"
| "String JNull = Some ''null''"
| "String (JBool b) = Some (if b then ''true'' else ''false'')"
| "String (JNum n) =
     (if \<bar>n\<bar> < 2 ^ 53 then Some ((if n < 0 then ''-'' else []) @ digits (nat \<bar>n\<bar>)) else None)"
| "String (JStr s) = Some s"
| "String (JDate t) = None"
| "String (JArr xs) = None"
| "String (JObj kvs) = (if map_of kvs ''toString'' = None then Some ''[object Object]'' else None)"

text \<open>\<^verbatim>\<open>v.toString()\<close>: as \<^verbatim>\<open>String(v)\<close>, but a \<^verbatim>\<open>TypeError\<close> on \<^verbatim>\<open>undefined\<close> and \<^verbatim>\<open>null\<close>.\<close>

definition toString :: "jsvalue \<Rightarrow> js_error + string" where
  "toString v =
     (case v of
        JUndefined \<Rightarrow> Inl TypeError
      | JNull \<Rightarrow> Inl TypeError
      | _ \<Rightarrow> (case String v of Some s \<Rightarrow> Inr s | None \<Rightarrow> Inl Unmodelled))"

section \<open>The query bridge: \<^verbatim>\<open>SearchHandler\<close>\<close>

text \<open>
  The fields of the handler, with its two collaborators: \<^verbatim>\<open>JSON.parse\<close> on a string
  (\<open>None\<close> when it throws) and the client's \<^verbatim>\<open>search\<close>, which hands its callback either an
  error, given by what \<^verbatim>\<open>toString()\<close> makes of it, or a response. The two keys are
  field names of the control record (not names that every object inherits a member under).
\<close>

record search_handler =
  reqKey :: string
  resKey :: string
  cleanupInterval :: int
  JSON_parse :: "string \<Rightarrow> jsvalue option"
  client_search :: "jsvalue \<Rightarrow> string + jsvalue"

text \<open>
  The state the bridge works on: the records of the control collection by id, and the
  requests that were handed to \<^verbatim>\<open>search\<close>. The document store does what it is asked:
  \<^verbatim>\<open>update\<close> sets the given fields of a record that exists and is refused for one that
  does not, \<^verbatim>\<open>delete\<close> removes the record.
\<close>

record bridge =
  records :: "(string \<times> fields) list"
  searches :: "jsvalue list"

definition ref_update :: "string \<Rightarrow> fields \<Rightarrow> bridge \<Rightarrow> bridge" where
  "ref_update ref data s =
     (case map_of (records s) ref of
        None \<Rightarrow> s
      | Some old \<Rightarrow>
          s\<lparr>records := AList.update ref (fold (\<lambda>(k, v). AList.update k v) data old) (records s)\<rparr>)"

definition ref_delete :: "string \<Rightarrow> bridge \<Rightarrow> bridge" where
  "ref_delete ref s = s\<lparr>records := AList.delete ref (records s)\<rparr>"

text \<open>
  \<^verbatim>\<open>respondError\<close>, \<^verbatim>\<open>send\<close> and \<^verbatim>\<open>respond\<close> are \<^verbatim>\<open>async\<close>: what they throw rejects
  their promise (\<open>Inl\<close>), and no caller awaits it.
\<close>

definition respondError :: "search_handler \<Rightarrow> string \<Rightarrow> jsvalue \<Rightarrow> bridge \<Rightarrow> js_error + bridge" where
  "respondError h ref message s =
     (case toString message of
        Inl e \<Rightarrow> Inl e
      | Inr text \<Rightarrow>
          Inr (ref_update ref [(resKey h, JObj [(''total'', JNum 0), (''error'', JStr text)])] s))"

text \<open>\<^verbatim>\<open>data[resKey].timestamp = new Date()\<close> on the response, at the clock reading \<open>now\<close>.\<close>

definition send :: "search_handler \<Rightarrow> int \<Rightarrow> string \<Rightarrow> jsvalue \<Rightarrow> bridge \<Rightarrow> js_error + bridge" where
  "send h now ref response s =
     (case response of
        JObj r \<Rightarrow> Inr (ref_update ref [(resKey h, JObj (AList.update ''timestamp'' (JDate now) r))] s)
      | _ \<Rightarrow> Inl Unmodelled)"

text \<open>
  \<^verbatim>\<open>temp[hit._id] = hit\<close>, for each hit in turn, on \<^verbatim>\<open>const temp = {}\<close>. The assignment
  makes or replaces the property of that name, except under \<^verbatim>\<open>__proto__\<close>: there it calls
  the inherited setter, which replaces the prototype of \<^verbatim>\<open>temp\<close> and gives it no property.
\<close>

definition hit_key :: "jsvalue \<Rightarrow> js_error + string" where
  "hit_key hit =
     (case read_prop hit ''_id'' of
        Inl e \<Rightarrow> Inl e
      | Inr i \<Rightarrow> (case String i of Some key \<Rightarrow> Inr key | None \<Rightarrow> Inl Unmodelled))"

fun rekey :: "jsvalue list \<Rightarrow> fields \<Rightarrow> js_error + fields" where
  "rekey [] temp = Inr temp"
| "rekey (hit # hits) temp =
     (case hit_key hit of
        Inl e \<Rightarrow> Inl e
      | Inr key \<Rightarrow>
          if key = ''__proto__'' then rekey hits temp
          else rekey hits (AList.update key hit temp))"

text \<open>Whether the loop has replaced the prototype of \<^verbatim>\<open>temp\<close>.\<close>

definition prototype_replaced :: "jsvalue list \<Rightarrow> bool" where
  "prototype_replaced hits = list_ex (\<lambda>hit. hit_key hit = Inr ''__proto__'') hits"

text \<open>What \<^verbatim>\<open>for (const hit of v)\<close> walks: the elements of an array, the characters
  of a string; any other value is not iterable.\<close>

definition iterate :: "jsvalue \<Rightarrow> js_error + jsvalue list" where
  "iterate v =
     (case v of
        JArr xs \<Rightarrow> Inr xs
      | JStr cs \<Rightarrow> Inr (map (\<lambda>c. JStr [c]) cs)
      | _ \<Rightarrow> Inl TypeError)"

text \<open>
  \<^verbatim>\<open>response.hits && response.hits.hits\<close> on a response that is neither \<^verbatim>\<open>undefined\<close>
  nor \<^verbatim>\<open>null\<close> (only whether it is truthy is used), and the assignment
  \<^verbatim>\<open>response.hits.hits = temp\<close>, which is reached only when that value is truthy, so
  when both \<^verbatim>\<open>response\<close> and \<^verbatim>\<open>response.hits\<close> are objects.
\<close>

definition hits_hits :: "jsvalue \<Rightarrow> jsvalue" where
  "hits_hits response =
     (case read_prop response ''hits'' of
        Inr (JObj hs) \<Rightarrow> own hs ''hits''
      | _ \<Rightarrow> JUndefined)"

definition set_hits_hits :: "jsvalue \<Rightarrow> fields \<Rightarrow> jsvalue" where
  "set_hits_hits response temp =
     (case response of
        JObj r \<Rightarrow>
          (case own r ''hits'' of
             JObj hs \<Rightarrow> JObj (AList.update ''hits'' (JObj (AList.update ''hits'' (JObj temp) hs)) r)
           | _ \<Rightarrow> response)
      | _ \<Rightarrow> response)"

text \<open>What the store writes for an object whose prototype was replaced is left out.\<close>

definition respond :: "search_handler \<Rightarrow> int \<Rightarrow> string \<Rightarrow> jsvalue \<Rightarrow> bridge \<Rightarrow> js_error + bridge" where
  "respond h now ref response s =
     (case read_prop response ''error'' of
        Inl e \<Rightarrow> Inl e
      | Inr err \<Rightarrow>
          if truthy err then respondError h ref err s
          else if truthy (hits_hits response)
          then (case iterate (hits_hits response) of
                  Inl e \<Rightarrow> Inl e
                | Inr hits \<Rightarrow>
                    (case rekey hits [] of
                       Inl e \<Rightarrow> Inl e
                     | Inr temp \<Rightarrow>
                         if prototype_replaced hits then Inl Unmodelled
                         else send h now ref (set_hits_hits response temp) s))
          else send h now ref response s)"

text \<open>A call of an \<^verbatim>\<open>async\<close> method that nobody awaits: a rejection leaves the state
  where it was.\<close>

definition unawaited :: "js_error + bridge \<Rightarrow> bridge \<Rightarrow> bridge" where
  "unawaited result s = (case result of Inl e \<Rightarrow> s | Inr s' \<Rightarrow> s')"

text \<open>
  The request after \<^verbatim>\<open>if (typeof request !== 'object') try { request = JSON.parse(request)
  } catch { }\<close>. \<^verbatim>\<open>JSON.parse\<close> of \<^verbatim>\<open>undefined\<close> throws, and of a number or a boolean gives
  the value back.
\<close>

definition parsed :: "search_handler \<Rightarrow> jsvalue \<Rightarrow> jsvalue" where
  "parsed h request =
     (if typeof_object request then request
      else case request of
             JStr text \<Rightarrow> (case JSON_parse h text of Some v \<Rightarrow> v | None \<Rightarrow> request)
           | _ \<Rightarrow> request)"

definition required :: string where
  "required = ''Queries are required to have an `index`, `type` and either a `q`:string or `body`''"

text \<open>
  \<^verbatim>\<open>process\<close> is not \<^verbatim>\<open>async\<close>: what it throws reaches its caller. The test reads
  \<^verbatim>\<open>request.index\<close> first, and the other three reads throw only where that one does.
\<close>

datatype outcome = Returns bridge | Throws js_error bridge

definition falsy_prop :: "jsvalue \<Rightarrow> string \<Rightarrow> bool" where
  "falsy_prop v name = (case read_prop v name of Inr x \<Rightarrow> \<not> truthy x | Inl e \<Rightarrow> False)"

definition process :: "search_handler \<Rightarrow> int \<Rightarrow> doc_snapshot \<Rightarrow> bridge \<Rightarrow> outcome" where
  "process h now snap s =
     (let request = parsed h (own (doc_data snap) (reqKey h))
      in case read_prop request ''index'' of
           Inl e \<Rightarrow> Throws e s
         | Inr i \<Rightarrow>
             if \<not> truthy i \<or> falsy_prop request ''type'' \<or>
                (falsy_prop request ''q'' \<and> falsy_prop request ''body'')
             then Returns (unawaited (respondError h (doc_id snap) (JStr required) s) s)
             else
               (let s1 = s\<lparr>searches := searches s @ [request]\<rparr>
                in case client_search h request of
                     Inl error \<Rightarrow> Returns (unawaited (respondError h (doc_id snap) (JStr error) s1) s1)
                   | Inr response \<Rightarrow> Returns (unawaited (respond h now (doc_id snap) response s1) s1)))"

text \<open>The \<^verbatim>\<open>forEach\<close> of \<^verbatim>\<open>SearchHandler.handleSnapshot\<close>: a throw ends it.\<close>

fun search_handleSnapshot :: "search_handler \<Rightarrow> int \<Rightarrow> change list \<Rightarrow> bridge \<Rightarrow> outcome" where
  "search_handleSnapshot h now [] s = Returns s"
| "search_handleSnapshot h now (c # cs) s =
     (if change_type c = Added
      then (case process h now (doc c) s of
              Throws e s' \<Rightarrow> Throws e s'
            | Returns s' \<Rightarrow> search_handleSnapshot h now cs s')
      else search_handleSnapshot h now cs s)"

section \<open>The cleanup sweep\<close>

text \<open>
  The store's query \<^verbatim>\<open>orderBy(resKey + '.timestamp').endAt(bound)\<close>, \<open>bound\<close> a date:
  the records that have the field (the response is a map with a \<^verbatim>\<open>timestamp\<close>) and
  whose value the store orders at or before the bound. The store orders values of
  different types by type: null, booleans and numbers come before every date, strings,
  arrays and maps after. The sweep deletes every item of the result, so the order of the
  result is left out.
\<close>

definition timestamp_field :: "string \<Rightarrow> fields \<Rightarrow> jsvalue option" where
  "timestamp_field key fs =
     (case map_of fs key of
        Some (JObj response) \<Rightarrow> map_of response ''timestamp''
      | _ \<Rightarrow> None)"

fun at_or_before :: "jsvalue \<Rightarrow> int \<Rightarrow> bool" where
  "at_or_before (JDate t) bound = (t \<le> bound)"
| "at_or_before JNull bound = True"
| "at_or_before (JBool b) bound = True"
| "at_or_before (JNum n) bound = True"
| "at_or_before v bound = False"

definition selected :: "string \<Rightarrow> int \<Rightarrow> string \<times> fields \<Rightarrow> bool" where
  "selected key bound item =
     (case timestamp_field key (snd item) of
        Some v \<Rightarrow> at_or_before v bound
      | None \<Rightarrow> False)"

definition cleanup :: "search_handler \<Rightarrow> int \<Rightarrow> bridge \<Rightarrow> bridge" where
  "cleanup h now s =
     (let items = filter (selected (resKey h) (now - cleanupInterval h)) (records s)
      in fold (\<lambda>item. ref_delete (fst item)) items s)"

section \<open>Notions used to state the properties\<close>

text \<open>The catalog entry of \<^verbatim>\<open>references\<close>, and a handler that has done nothing yet.\<close>

definition emails :: reference where
  "emails = \<lparr>collection = ''emails'', subcollection = None, subBuilder = None,
              index = Literal ''emails'', type = Literal ''emails'',
              include' = Some [''snippet'', ''id''], exclude = None,
              filter_fn = None, transform = None\<rparr>"

definition idle :: handler where
  "idle = \<lparr>listeners = [], opened = [], cancelled = [], calls = [], errors = [], pending = []\<rparr>"

text \<open>A query bridge on the keys \<^verbatim>\<open>request\<close> and \<^verbatim>\<open>response\<close>, with a retention
  of one minute, a parser that accepts nothing and a search backend that is down.\<close>

definition sample :: search_handler where
  "sample = \<lparr>reqKey = ''request'', resKey = ''response'', cleanupInterval = 60000,
             JSON_parse = (\<lambda>text. None), client_search = (\<lambda>request. Inl ''unavailable'')\<rparr>"

text \<open>A key of the payload survives \<^verbatim>\<open>filter\<close> when \<^verbatim>\<open>include\<close>, if set, lists it, unless
  \<^verbatim>\<open>exclude\<close> lists it and its value is truthy.\<close>

definition kept :: "reference \<Rightarrow> fields \<Rightarrow> string \<Rightarrow> bool" where
  "kept r d k \<longleftrightarrow>
     (case include' r of Some inc \<Rightarrow> k \<in> set inc | None \<Rightarrow> True) \<and>
     \<not> (case exclude r of Some exc \<Rightarrow> k \<in> set exc \<and> truthy (own d k) | None \<Rightarrow> False)"

text \<open>The tag each handler puts in its error line, the body a handler sends (the
  filtered payload, transformed when the descriptor has a \<^verbatim>\<open>transform\<close>), and the call a
  handler starts with, none when the filter drops the document.\<close>

definition handler_tag :: "change_type \<Rightarrow> string" where
  "handler_tag k = (case k of Added \<Rightarrow> ''FS_ADDED'' | Modified \<Rightarrow> ''FS_MODIFIED'' | Removed \<Rightarrow> ''FS_REMOVE'')"

definition body_of :: "reference \<Rightarrow> fields \<Rightarrow> doc_snapshot option \<Rightarrow> jsvalue" where
  "body_of r data parentSnap = (case transform r of Some t \<Rightarrow> t (JObj data) parentSnap | None \<Rightarrow> JObj data)"

definition first_call :: "reference \<Rightarrow> doc_snapshot option \<Rightarrow> change list \<Rightarrow> change \<Rightarrow> sink_call option" where
  "first_call r parentSnap snap c =
     (let idx = resolve (index r) snap parentSnap; ty = resolve (type r) snap parentSnap
      in case change_type c of
           Removed \<Rightarrow> Some (Delete (doc_id (doc c)) idx ty)
         | Added \<Rightarrow> map_option (\<lambda>data. Exists (doc_id (doc c)) idx ty) (filter_data r (doc_data (doc c)))
         | Modified \<Rightarrow> map_option (\<lambda>data. Update (doc_id (doc c)) idx ty (JObj [(''doc'', body_of r data parentSnap)]) 2)
                          (filter_data r (doc_data (doc c))))"

text \<open>The tag and the document id a waiting handler logs with.\<close>

fun awaiting_tag :: "awaiting \<Rightarrow> string" where
  "awaiting_tag (AwaitExists ident idx ty body) = ''FS_ADDED''"
| "awaiting_tag (AwaitWrite tag ident) = tag"

fun awaiting_doc :: "awaiting \<Rightarrow> string" where
  "awaiting_doc (AwaitExists ident idx ty body) = ident"
| "awaiting_doc (AwaitWrite tag ident) = ident"

text \<open>The identifier of a hit: the string its \<^verbatim>\<open>_id\<close> holds.\<close>

definition hit_id :: "jsvalue \<Rightarrow> string option" where
  "hit_id hit =
     (case hit of
        JObj fs \<Rightarrow> (case map_of fs ''_id'' of Some (JStr i) \<Rightarrow> Some i | _ \<Rightarrow> None)
      | _ \<Rightarrow> None)"

section \<open>Properties of the record pipeline\<close>

lemma map_of_fold_include:
  "map_of (fold (include_step inc) ks d) k =
     (if k \<in> set ks \<and> k \<notin> set inc then None else map_of d k)"
  by (induction ks arbitrary: d) (auto simp: include_step_def AList.delete_conv)

lemma own_delete: "own (AList.delete k d) k' = (if k' = k then JUndefined else own d k')"
  by (simp add: own_def AList.delete_conv)

lemma map_of_fold_exclude:
  "map_of (fold exclude_step exc d) k =
     (if k \<in> set exc \<and> truthy (own d k) then None else map_of d k)"
proof (induction exc arbitrary: d)
  case Nil
  then show ?case by simp
next
  case (Cons e exc)
  show ?case
  proof (cases "truthy (own d e)")
    case True
    then show ?thesis
      using Cons.IH [of "AList.delete e d"]
      by (auto simp: exclude_step_def own_delete AList.delete_conv)
  next
    case False
    then show ?thesis
      using Cons.IH [of d] by (auto simp: exclude_step_def)
  qed
qed

lemma map_of_include_part:
  "map_of (case inc of Some xs \<Rightarrow> fold (include_step xs) (map fst d) d | None \<Rightarrow> d) k =
     (if (case inc of Some xs \<Rightarrow> k \<in> set xs | None \<Rightarrow> True) then map_of d k else None)"
proof (cases inc)
  case None
  then show ?thesis by simp
next
  case (Some xs)
  have "k \<notin> fst ` set d \<Longrightarrow> map_of d k = None"
    by (simp add: map_of_eq_None_iff)
  with Some show ?thesis
    by (auto simp: map_of_fold_include)
qed

lemma map_of_exclude_part:
  "map_of (case exc of Some xs \<Rightarrow> fold exclude_step xs d | None \<Rightarrow> d) k =
     (if (case exc of Some xs \<Rightarrow> k \<in> set xs \<and> truthy (own d k) | None \<Rightarrow> False)
      then None else map_of d k)"
  by (cases exc) (simp_all add: map_of_fold_exclude)

lemma filter_data_map_of:
  assumes "filter_data r d = Some out"
  shows "map_of out k = (if kept r d k then map_of d k else None)"
proof -
  define d1 where "d1 = (case include' r of Some xs \<Rightarrow> fold (include_step xs) (map fst d) d | None \<Rightarrow> d)"
  have out: "out = (case exclude r of Some xs \<Rightarrow> fold exclude_step xs d1 | None \<Rightarrow> d1)"
    using assms by (auto simp: filter_data_def Let_def d1_def split: if_splits option.splits)
  have m1: "map_of d1 k = (if (case include' r of Some xs \<Rightarrow> k \<in> set xs | None \<Rightarrow> True) then map_of d k else None)"
    unfolding d1_def by (rule map_of_include_part)
  have o1: "own d1 k = (if (case include' r of Some xs \<Rightarrow> k \<in> set xs | None \<Rightarrow> True) then own d k else JUndefined)"
    by (simp add: own_def m1)
  show ?thesis
    unfolding out map_of_exclude_part m1 o1 kept_def
    by (auto split: option.splits)
qed

text \<open>
  C1. The projected output should have the keys (include \<inter> keys d) minus exclude, whatever
  the excluded fields hold. The exclude loop tests \<^verbatim>\<open>data[key]\<close> before it deletes, so an
  excluded field is dropped when it holds \<^verbatim>\<open>true\<close> and stays when it holds \<^verbatim>\<open>false\<close>
  (the include loop deletes without looking at the value).
\<close>

theorem filter_data_keeps_falsy_excluded:
  "filter_data (emails\<lparr>include' := Some [''snippet'', ''id'', ''unread''], exclude := Some [''unread'']\<rparr>)
       [(''snippet'', JStr ''hi''), (''unread'', JBool True), (''payload'', JNull)]
     = Some [(''snippet'', JStr ''hi'')] \<and>
   filter_data (emails\<lparr>include' := Some [''snippet'', ''id'', ''unread''], exclude := Some [''unread'']\<rparr>)
       [(''snippet'', JStr ''hi''), (''unread'', JBool False), (''payload'', JNull)]
     = Some [(''snippet'', JStr ''hi''), (''unread'', JBool False)]"
  by (simp add: filter_data_def emails_def include_step_def exclude_step_def own_def)

section \<open>Properties of the subscription registry\<close>

text \<open>
  C2, as the code has it. A Removed event of the parent collection calls the handle
  registered under the parent's id and leaves \<^verbatim>\<open>listeners\<close> as it was, the entry
  included: nothing but the list of called handles changes. With no entry under that id,
  and the id not the name of a member that \<^verbatim>\<open>listeners\<close> inherits, the event changes
  nothing and the handler completes: no handle is called and no subscription is opened.
\<close>

theorem removed_event_registry:
  assumes "change_type c = Removed"
  shows "(\<forall>handle. map_of (listeners s) (doc_id (doc c)) = Some handle \<longrightarrow>
            handleBindingSubcollection proto r [c] s =
              Completes (s\<lparr>cancelled := cancelled s @ [handle]\<rparr>)) \<and>
         (map_of (listeners s) (doc_id (doc c)) = None \<and> proto (doc_id (doc c)) = None \<longrightarrow>
            handleBindingSubcollection proto r [c] s = Completes s)"
  using assms by (simp add: binding_change_def)

theorem removed_event_registry_witness:
  "handleBindingSubcollection Object_prototype (emails\<lparr>subcollection := Some ''replies''\<rparr>)
      [\<lparr>change_type = Removed, doc = \<lparr>doc_id = ''P1'', doc_data = []\<rparr>\<rparr>]
      (idle\<lparr>listeners := [(''P1'', 0)], opened := [(''emails/P1/replies'', \<lparr>doc_id = ''P1'', doc_data = []\<rparr>)]\<rparr>)
     = Completes (idle\<lparr>listeners := [(''P1'', 0)],
                       opened := [(''emails/P1/replies'', \<lparr>doc_id = ''P1'', doc_data = []\<rparr>)],
                       cancelled := [0]\<rparr>) \<and>
   map_of (listeners idle) ''P1'' = None \<and>
   Object_prototype ''P1'' = None \<and>
   handleBindingSubcollection Object_prototype (emails\<lparr>subcollection := Some ''replies''\<rparr>)
      [\<lparr>change_type = Removed, doc = \<lparr>doc_id = ''P1'', doc_data = []\<rparr>\<rparr>] idle = Completes idle"
proof -
  have k: "change_type \<lparr>change_type = Removed, doc = \<lparr>doc_id = ''P1'', doc_data = []\<rparr>\<rparr> = Removed"
    by simp
  have p: "Object_prototype ''P1'' = None"
    by (simp add: Object_prototype_def)
  show ?thesis
    using p
      removed_event_registry [OF k, of
        "idle\<lparr>listeners := [(''P1'', 0)], opened := [(''emails/P1/replies'', \<lparr>doc_id = ''P1'', doc_data = []\<rparr>)]\<rparr>"
        Object_prototype "emails\<lparr>subcollection := Some ''replies''\<rparr>"]
      removed_event_registry [OF k, of idle Object_prototype "emails\<lparr>subcollection := Some ''replies''\<rparr>"]
    by (simp add: idle_def)
qed

text \<open>
  C2 as stated fails: after the parent \<open>P1\<close> is added and then removed, its handle has
  been called and the entry is still in \<^verbatim>\<open>listeners\<close>.
\<close>

theorem removed_entry_stays_counterexample:
  "handleBindingSubcollection Object_prototype (emails\<lparr>subcollection := Some ''replies''\<rparr>)
      [\<lparr>change_type = Added, doc = \<lparr>doc_id = ''P1'', doc_data = []\<rparr>\<rparr>,
       \<lparr>change_type = Removed, doc = \<lparr>doc_id = ''P1'', doc_data = []\<rparr>\<rparr>] idle
     = Completes (idle\<lparr>listeners := [(''P1'', 0)],
                       opened := [(''emails/P1/replies'', \<lparr>doc_id = ''P1'', doc_data = []\<rparr>)],
                       cancelled := [0]\<rparr>)"
  by (simp add: binding_change_def idle_def emails_def)

text \<open>
  A Removed event for a parent that was never added and whose id is \<^verbatim>\<open>valueOf\<close> finds the
  inherited member, calls it and throws: the handler rejects and the Added event after it
  in the batch is not looked at.
\<close>

lemma removed_inherited_name_rejects:
  "handleBindingSubcollection Object_prototype (emails\<lparr>subcollection := Some ''replies''\<rparr>)
      [\<lparr>change_type = Removed, doc = \<lparr>doc_id = ''valueOf'', doc_data = []\<rparr>\<rparr>,
       \<lparr>change_type = Added, doc = \<lparr>doc_id = ''P2'', doc_data = []\<rparr>\<rparr>] idle
     = Rejects TypeError idle"
  by (simp add: binding_change_def idle_def Object_prototype_def)

section \<open>Properties of the change dispatcher\<close>

text \<open>
  C3. For an Added event whose document passes the filter: when \<^verbatim>\<open>exists\<close> answers true,
  the handler's calls are \<^verbatim>\<open>exists\<close> and then one \<^verbatim>\<open>update\<close> of the body as \<^verbatim>\<open>doc\<close> with
  \<^verbatim>\<open>doc_as_upsert: true\<close> and \<^verbatim>\<open>retryOnConflict: 2\<close>, and no \<^verbatim>\<open>index\<close> call; when it
  answers false, they are \<^verbatim>\<open>exists\<close> and then one \<^verbatim>\<open>index\<close> call with the body.
\<close>

theorem handleAdded_calls:
  assumes "filter_data r (doc_data d) = Some data"
  shows "(sink (calls s) (Exists (doc_id d) idx ty) = Inr True \<longrightarrow>
            calls (handleAdded sink r d parentSnap idx ty s) =
              calls s @ [Exists (doc_id d) idx ty,
                         Update (doc_id d) idx ty
                           (JObj [(''doc'', body_of r data parentSnap), (''doc_as_upsert'', JBool True)]) 2]) \<and>
         (sink (calls s) (Exists (doc_id d) idx ty) = Inr False \<longrightarrow>
            calls (handleAdded sink r d parentSnap idx ty s) =
              calls s @ [Exists (doc_id d) idx ty, Index (doc_id d) idx ty (body_of r data parentSnap)])"
  using assms
  by (simp add: handleAdded_def perform_def console_error_def body_of_def Let_def split: sum.splits prod.splits)

theorem handleAdded_calls_witness:
  "filter_data emails [(''snippet'', JStr ''hi''), (''payload'', JNull)] = Some [(''snippet'', JStr ''hi'')] \<and>
   calls (handleAdded (\<lambda>h c. Inr True) emails
            \<lparr>doc_id = ''m1'', doc_data = [(''snippet'', JStr ''hi''), (''payload'', JNull)]\<rparr>
            None ''emails'' ''emails'' idle)
     = [Exists ''m1'' ''emails'' ''emails'',
        Update ''m1'' ''emails'' ''emails''
          (JObj [(''doc'', JObj [(''snippet'', JStr ''hi'')]), (''doc_as_upsert'', JBool True)]) 2] \<and>
   calls (handleAdded (\<lambda>h c. Inr False) emails
            \<lparr>doc_id = ''m1'', doc_data = [(''snippet'', JStr ''hi''), (''payload'', JNull)]\<rparr>
            None ''emails'' ''emails'' idle)
     = [Exists ''m1'' ''emails'' ''emails'',
        Index ''m1'' ''emails'' ''emails'' (JObj [(''snippet'', JStr ''hi'')])]"
proof -
  have f: "filter_data emails (doc_data \<lparr>doc_id = ''m1'', doc_data = [(''snippet'', JStr ''hi''), (''payload'', JNull)]\<rparr>)
             = Some [(''snippet'', JStr ''hi'')]"
    by (simp add: filter_data_def emails_def include_step_def)
  show ?thesis
    using f handleAdded_calls [OF f, of "\<lambda>h c. Inr True" idle "''emails''" "''emails''" None]
      handleAdded_calls [OF f, of "\<lambda>h c. Inr False" idle "''emails''" "''emails''" None]
    by (simp add: body_of_def emails_def idle_def)
qed

lemma start_calls:
  "calls (start r p snap c s) = calls s @ (case first_call r p snap c of Some k \<Rightarrow> [k] | None \<Rightarrow> [])"
  by (cases "change_type c")
     (auto simp: start_def first_call_def start_added_def start_modified_def start_removed_def
        suspend_def body_of_def Let_def split: option.splits)

lemma start_pending:
  "map (\<lambda>t. (awaiting_tag t, awaiting_doc t)) (pending (start r p snap c s)) =
     map (\<lambda>t. (awaiting_tag t, awaiting_doc t)) (pending s) @
     (if first_call r p snap c \<noteq> None then [(handler_tag (change_type c), doc_id (doc c))] else [])"
  by (cases "change_type c")
     (auto simp: start_def first_call_def start_added_def start_modified_def start_removed_def
        suspend_def handler_tag_def Let_def split: option.splits)

lemma start_other_fields:
  "errors (start r p snap c s) = errors s \<and> listeners (start r p snap c s) = listeners s \<and>
   opened (start r p snap c s) = opened s \<and> cancelled (start r p snap c s) = cancelled s"
  by (cases "change_type c")
     (auto simp: start_def start_added_def start_modified_def start_removed_def
        suspend_def Let_def split: option.splits)

lemma fold_start_calls:
  "calls (fold (start r p snap) cs s) = calls s @ List.map_filter (first_call r p snap) cs"
  by (induction cs arbitrary: s) (auto simp: start_calls List.map_filter_simps split: option.splits)

lemma fold_start_pending:
  "map (\<lambda>t. (awaiting_tag t, awaiting_doc t)) (pending (fold (start r p snap) cs s)) =
     map (\<lambda>t. (awaiting_tag t, awaiting_doc t)) (pending s) @
     map (\<lambda>c. (handler_tag (change_type c), doc_id (doc c)))
       (filter (\<lambda>c. first_call r p snap c \<noteq> None) cs)"
  by (induction cs arbitrary: s) (simp_all add: start_pending)

lemma fold_start_other_fields:
  "errors (fold (start r p snap) cs s) = errors s \<and> listeners (fold (start r p snap) cs s) = listeners s \<and>
   opened (fold (start r p snap) cs s) = opened s \<and> cancelled (fold (start r p snap) cs s) = cancelled s"
  by (induction cs arbitrary: s) (simp_all add: start_other_fields)

lemma resume_rejected:
  "n < length (pending s) \<Longrightarrow>
     resume n (Inl e) s =
       s\<lparr>errors := errors s @ [error_line (awaiting_tag (pending s ! n)) (awaiting_doc (pending s ! n)) e],
         pending := take n (pending s) @ drop (Suc n) (pending s)\<rparr>"
  by (cases "pending s ! n") (simp_all add: resume_def console_error_def finish_def)

lemma resume_replied:
  "n < length (pending s) \<Longrightarrow>
     map (\<lambda>t. (awaiting_tag t, awaiting_doc t)) (pending (resume n (Inr b) s)) =
       (case pending s ! n of
          AwaitExists ident idx ty body \<Rightarrow> map (\<lambda>t. (awaiting_tag t, awaiting_doc t)) (pending s)
        | AwaitWrite tag ident \<Rightarrow>
            map (\<lambda>t. (awaiting_tag t, awaiting_doc t)) (take n (pending s) @ drop (Suc n) (pending s))) \<and>
     errors (resume n (Inr b) s) = errors s"
  by (cases "pending s ! n") (auto simp: resume_def finish_def map_update list_update_same_conv)

text \<open>
  C4. \<^verbatim>\<open>handleSnapshot\<close> makes, in the order of the batch, the first call of every event
  whose handler has one, and leaves every such handler waiting under its own tag and
  document id; it depends on no answer of the sink, logs nothing and does not touch the
  registry (the subscriptions and their handles). When the sink then rejects the call a
  handler waits for, with message \<open>e\<close>, that handler ends with exactly one more error
  line, made of its tag, its document id and \<open>e\<close>; the calls made, the registry and
  every other waiting handler are as before. A reply logs nothing, and after the reply to
  \<^verbatim>\<open>exists\<close> the handler waits for its second call under the same tag and document id.
\<close>

theorem sink_failure_contained:
  "calls (handleSnapshot r p snap s) = calls s @ List.map_filter (first_call r p snap) snap \<and>
   map (\<lambda>t. (awaiting_tag t, awaiting_doc t)) (pending (handleSnapshot r p snap s)) =
     map (\<lambda>t. (awaiting_tag t, awaiting_doc t)) (pending s) @
     map (\<lambda>c. (handler_tag (change_type c), doc_id (doc c)))
       (filter (\<lambda>c. first_call r p snap c \<noteq> None) snap) \<and>
   errors (handleSnapshot r p snap s) = errors s \<and>
   listeners (handleSnapshot r p snap s) = listeners s \<and>
   opened (handleSnapshot r p snap s) = opened s \<and>
   cancelled (handleSnapshot r p snap s) = cancelled s \<and>
   (n < length (pending s) \<longrightarrow>
      resume n (Inl e) s =
        s\<lparr>errors := errors s @ [error_line (awaiting_tag (pending s ! n)) (awaiting_doc (pending s ! n)) e],
          pending := take n (pending s) @ drop (Suc n) (pending s)\<rparr> \<and>
      errors (resume n (Inr b) s) = errors s \<and>
      map (\<lambda>t. (awaiting_tag t, awaiting_doc t)) (pending (resume n (Inr b) s)) =
        (case pending s ! n of
           AwaitExists ident idx ty body \<Rightarrow> map (\<lambda>t. (awaiting_tag t, awaiting_doc t)) (pending s)
         | AwaitWrite tag ident \<Rightarrow>
             map (\<lambda>t. (awaiting_tag t, awaiting_doc t)) (take n (pending s) @ drop (Suc n) (pending s))))"
  using fold_start_calls [of r p snap snap s] fold_start_pending [of r p snap snap s]
    fold_start_other_fields [of r p snap snap s] resume_rejected [of n s e] resume_replied [of n s b]
  by (simp add: handleSnapshot_def)

theorem sink_failure_contained_witness:
  "handleSnapshot emails None
       [\<lparr>change_type = Added, doc = \<lparr>doc_id = ''m1'', doc_data = [(''snippet'', JStr ''hi'')]\<rparr>\<rparr>,
        \<lparr>change_type = Removed, doc = \<lparr>doc_id = ''m2'', doc_data = []\<rparr>\<rparr>] idle
     = idle\<lparr>calls := [Exists ''m1'' ''emails'' ''emails'', Delete ''m2'' ''emails'' ''emails''],
             pending := [AwaitExists ''m1'' ''emails'' ''emails'' (JObj [(''snippet'', JStr ''hi'')]),
                         AwaitWrite ''FS_REMOVE'' ''m2'']\<rparr> \<and>
   resume 1 (Inl ''down'')
       (idle\<lparr>calls := [Exists ''m1'' ''emails'' ''emails'', Delete ''m2'' ''emails'' ''emails''],
              pending := [AwaitExists ''m1'' ''emails'' ''emails'' (JObj [(''snippet'', JStr ''hi'')]),
                          AwaitWrite ''FS_REMOVE'' ''m2'']\<rparr>)
     = idle\<lparr>calls := [Exists ''m1'' ''emails'' ''emails'', Delete ''m2'' ''emails'' ''emails''],
             errors := [''Error in `FS_REMOVE` handler [doc@m2]: down''],
             pending := [AwaitExists ''m1'' ''emails'' ''emails'' (JObj [(''snippet'', JStr ''hi'')])]\<rparr> \<and>
   resume 0 (Inl ''down'')
       (idle\<lparr>calls := [Exists ''m1'' ''emails'' ''emails'', Delete ''m2'' ''emails'' ''emails''],
              errors := [''Error in `FS_REMOVE` handler [doc@m2]: down''],
              pending := [AwaitExists ''m1'' ''emails'' ''emails'' (JObj [(''snippet'', JStr ''hi'')])]\<rparr>)
     = idle\<lparr>calls := [Exists ''m1'' ''emails'' ''emails'', Delete ''m2'' ''emails'' ''emails''],
             errors := [''Error in `FS_REMOVE` handler [doc@m2]: down'',
                        ''Error in `FS_ADDED` handler [doc@m1]: down''],
             pending := []\<rparr>"
  using
    sink_failure_contained [where r = emails and p = None and s = idle and n = 0
      and snap = "[\<lparr>change_type = Added, doc = \<lparr>doc_id = ''m1'', doc_data = [(''snippet'', JStr ''hi'')]\<rparr>\<rparr>,
                   \<lparr>change_type = Removed, doc = \<lparr>doc_id = ''m2'', doc_data = []\<rparr>\<rparr>]"]
    sink_failure_contained [where n = 1 and e = "''down''"
      and s = "idle\<lparr>calls := [Exists ''m1'' ''emails'' ''emails'', Delete ''m2'' ''emails'' ''emails''],
              pending := [AwaitExists ''m1'' ''emails'' ''emails'' (JObj [(''snippet'', JStr ''hi'')]),
                          AwaitWrite ''FS_REMOVE'' ''m2'']\<rparr>"]
    sink_failure_contained [where n = 0 and e = "''down''"
      and s = "idle\<lparr>calls := [Exists ''m1'' ''emails'' ''emails'', Delete ''m2'' ''emails'' ''emails''],
              errors := [''Error in `FS_REMOVE` handler [doc@m2]: down''],
              pending := [AwaitExists ''m1'' ''emails'' ''emails'' (JObj [(''snippet'', JStr ''hi'')])]\<rparr>"]
  by (simp add: handleSnapshot_def start_def start_added_def start_removed_def suspend_def
      resume_def finish_def console_error_def error_line_def resolve_def filter_data_def include_step_def
      emails_def idle_def Let_def)

text \<open>
  The calls of two handlers of a batch interleave: for a document added and removed in
  one batch, \<^verbatim>\<open>exists\<close> and \<^verbatim>\<open>delete\<close> are made before the \<^verbatim>\<open>index\<close> call.
\<close>

lemma added_then_removed_interleave:
  "resume 0 (Inr False)
     (handleSnapshot emails None
        [\<lparr>change_type = Added, doc = \<lparr>doc_id = ''m1'', doc_data = [(''snippet'', JStr ''hi'')]\<rparr>\<rparr>,
         \<lparr>change_type = Removed, doc = \<lparr>doc_id = ''m1'', doc_data = []\<rparr>\<rparr>] idle)
     = idle\<lparr>calls := [Exists ''m1'' ''emails'' ''emails'', Delete ''m1'' ''emails'' ''emails'',
                       Index ''m1'' ''emails'' ''emails'' (JObj [(''snippet'', JStr ''hi'')])],
             pending := [AwaitWrite ''FS_ADDED'' ''m1'', AwaitWrite ''FS_REMOVE'' ''m1'']\<rparr>"
  by (simp add: handleSnapshot_def start_def start_added_def start_removed_def suspend_def
      resume_def resolve_def filter_data_def include_step_def emails_def idle_def Let_def)

text \<open>
  The two readings of a handler agree: followed on its own, a handler does what its start
  does, the sink then settling each call it waits for.
\<close>

lemma handleAdded_alone:
  "pending s = [] \<Longrightarrow>
     handleAdded sink r d p idx ty s = answer sink (answer sink (start_added r d p idx ty s))"
  by (auto simp: handleAdded_def start_added_def suspend_def answer_def resume_def perform_def
      console_error_def finish_def Let_def butlast_append split: option.splits sum.splits)

lemma handleModified_alone:
  "pending s = [] \<Longrightarrow>
     handleModified sink r d p idx ty s = answer sink (start_modified r d p idx ty s)"
  by (auto simp: handleModified_def start_modified_def suspend_def answer_def resume_def perform_def
      console_error_def finish_def Let_def split: option.splits sum.splits)

lemma handleRemoved_alone:
  "pending s = [] \<Longrightarrow> handleRemoved sink d idx ty s = answer sink (start_removed d idx ty s)"
  by (auto simp: handleRemoved_def start_removed_def suspend_def answer_def resume_def perform_def
      console_error_def finish_def split: sum.splits)

section \<open>Properties of the query bridge\<close>

lemma map_of_ref_update:
  "map_of (records (ref_update ref data s)) k =
     (if k = ref then map_option (fold (\<lambda>(k, v). AList.update k v) data) (map_of (records s) ref)
      else map_of (records s) k)"
  by (simp add: ref_update_def AList.update_conv' split: option.splits)

lemma searches_ref_update: "searches (ref_update ref data s) = searches s"
  by (simp add: ref_update_def split: option.splits)

lemma respondError_string:
  "respondError h ref (JStr m) s =
     Inr (ref_update ref [(resKey h, JObj [(''total'', JNum 0), (''error'', JStr m)])] s)"
  by (simp add: respondError_def toString_def)

text \<open>
  C5. Take a control record that is in the store and whose request, once parsed, has
  no \<^verbatim>\<open>index\<close>, or no \<^verbatim>\<open>type\<close>, or neither \<^verbatim>\<open>q\<close> nor \<^verbatim>\<open>body\<close>. Then \<^verbatim>\<open>process\<close>
  returns, no search has been made, the record's response field holds exactly
  \<^verbatim>\<open>{total: 0, error: "Queries are required to have an `index`, `type` and either a
  `q`:string or `body`"}\<close>, and no other record has changed. (A request that is
  \<^verbatim>\<open>undefined\<close> or \<^verbatim>\<open>null\<close> has no properties to miss: see C7.)
\<close>

theorem process_rejects_incomplete_request:
  assumes "map_of (records s) (doc_id snap) = Some old"
    and "request = parsed h (own (doc_data snap) (reqKey h))"
    and "read_prop request ''index'' = Inr JUndefined \<or> read_prop request ''type'' = Inr JUndefined \<or>
         (read_prop request ''q'' = Inr JUndefined \<and> read_prop request ''body'' = Inr JUndefined)"
  shows "\<exists>s'. process h now snap s = Returns s' \<and>
           searches s' = searches s \<and>
           map_of (records s') (doc_id snap) =
             Some (AList.update (resKey h) (JObj [(''total'', JNum 0), (''error'', JStr required)]) old) \<and>
           (\<forall>other. other \<noteq> doc_id snap \<longrightarrow> map_of (records s') other = map_of (records s) other)"
proof -
  have nn: "request \<noteq> JUndefined" "request \<noteq> JNull"
    using assms(3) by (auto simp: read_prop_def)
  then obtain i where i: "read_prop request ''index'' = Inr i"
    by (cases request) (auto simp: read_prop_def)
  have bad: "\<not> truthy i \<or> falsy_prop request ''type'' \<or>
         (falsy_prop request ''q'' \<and> falsy_prop request ''body'')"
    using assms(3) i by (auto simp: falsy_prop_def)
  have "process h now snap s =
      Returns (ref_update (doc_id snap) [(resKey h, JObj [(''total'', JNum 0), (''error'', JStr required)])] s)"
    using i bad assms(2)
    by (simp add: process_def Let_def respondError_string unawaited_def)
  then show ?thesis
    using assms(1) by (simp add: map_of_ref_update searches_ref_update)
qed

theorem process_rejects_incomplete_request_witness:
  "read_prop (JObj [(''type'', JStr ''emails'')]) ''index'' = Inr JUndefined \<and>
   process sample 1000 \<lparr>doc_id = ''q1'', doc_data = [(''request'', JObj [(''type'', JStr ''emails'')])]\<rparr>
       \<lparr>records = [(''q1'', [(''request'', JObj [(''type'', JStr ''emails'')])])], searches = []\<rparr>
     = Returns \<lparr>records = [(''q1'', [(''request'', JObj [(''type'', JStr ''emails'')]),
                                      (''response'', JObj [(''total'', JNum 0), (''error'', JStr required)])])],
                 searches = []\<rparr>"
proof -
  have 1: "map_of (records \<lparr>records = [(''q1'', [(''request'', JObj [(''type'', JStr ''emails'')])])], searches = []\<rparr>)
             (doc_id \<lparr>doc_id = ''q1'', doc_data = [(''request'', JObj [(''type'', JStr ''emails'')])]\<rparr>)
           = Some [(''request'', JObj [(''type'', JStr ''emails'')])]"
    by simp
  have 2: "JObj [(''type'', JStr ''emails'')] =
           parsed sample (own (doc_data \<lparr>doc_id = ''q1'', doc_data = [(''request'', JObj [(''type'', JStr ''emails'')])]\<rparr>)
             (reqKey sample))"
    by (simp add: parsed_def own_def sample_def)
  have 3: "read_prop (JObj [(''type'', JStr ''emails'')]) ''index'' = Inr JUndefined \<or>
           read_prop (JObj [(''type'', JStr ''emails'')]) ''type'' = Inr JUndefined \<or>
           (read_prop (JObj [(''type'', JStr ''emails'')]) ''q'' = Inr JUndefined \<and>
            read_prop (JObj [(''type'', JStr ''emails'')]) ''body'' = Inr JUndefined)"
    by (simp add: read_prop_def own_def)
  show ?thesis
    using process_rejects_incomplete_request [OF 1 2 3, of 1000]
    by (simp add: read_prop_def own_def process_def parsed_def sample_def falsy_prop_def
        respondError_def toString_def unawaited_def ref_update_def Let_def)
qed

text \<open>
  C7. Processing should never throw, whatever the request field holds. On a record
  with no request field, and on one whose request is \<^verbatim>\<open>null\<close>, \<^verbatim>\<open>process\<close> throws a
  \<^verbatim>\<open>TypeError\<close> at \<^verbatim>\<open>request.index\<close> and writes nothing: the \<^verbatim>\<open>try\<close> covers the parse only.
\<close>

theorem process_throws_without_request:
  "process h now \<lparr>doc_id = ref, doc_data = []\<rparr> s = Throws TypeError s \<and>
   process h now \<lparr>doc_id = ref, doc_data = [(reqKey h, JNull)]\<rparr> s = Throws TypeError s"
  by (simp add: process_def parsed_def own_def read_prop_def)

theorem process_throws_without_request_witness:
  "process sample 1000 \<lparr>doc_id = ''q1'', doc_data = []\<rparr>
       \<lparr>records = [(''q1'', [])], searches = []\<rparr>
     = Throws TypeError \<lparr>records = [(''q1'', [])], searches = []\<rparr> \<and>
   process sample 1000 \<lparr>doc_id = ''q2'', doc_data = [(''request'', JNull)]\<rparr>
       \<lparr>records = [(''q2'', [(''request'', JNull)])], searches = []\<rparr>
     = Throws TypeError \<lparr>records = [(''q2'', [(''request'', JNull)])], searches = []\<rparr>"
  using process_throws_without_request [of sample 1000 "''q1''" "\<lparr>records = [(''q1'', [])], searches = []\<rparr>"]
    process_throws_without_request [of sample 1000 "''q2''"
      "\<lparr>records = [(''q2'', [(''request'', JNull)])], searches = []\<rparr>"]
  by (simp add: sample_def)

text \<open>On every other request \<^verbatim>\<open>process\<close> returns.\<close>

lemma process_returns:
  assumes "parsed h (own (doc_data snap) (reqKey h)) \<noteq> JUndefined"
    and "parsed h (own (doc_data snap) (reqKey h)) \<noteq> JNull"
  shows "\<exists>s'. process h now snap s = Returns s'"
proof -
  obtain i where "read_prop (parsed h (own (doc_data snap) (reqKey h))) ''index'' = Inr i"
    using assms by (cases "parsed h (own (doc_data snap) (reqKey h))") (auto simp: read_prop_def)
  then show ?thesis
    by (simp add: process_def Let_def split: sum.splits)
qed

text \<open>
  C10. \<^verbatim>\<open>SearchHandler.handleSnapshot\<close> does with a batch what it does with the Added
  events of that batch; a batch of Modified and Removed events only leaves the state as it
  was: no request is processed, no search is made, nothing is written.
\<close>

theorem only_added_is_processed:
  "search_handleSnapshot h now snap s =
     search_handleSnapshot h now (filter (\<lambda>c. change_type c = Added) snap) s \<and>
   ((\<forall>c \<in> set snap. change_type c \<noteq> Added) \<longrightarrow> search_handleSnapshot h now snap s = Returns s)"
proof -
  have a: "search_handleSnapshot h now snap s =
       search_handleSnapshot h now (filter (\<lambda>c. change_type c = Added) snap) s"
    by (induction snap arbitrary: s) (auto split: outcome.splits)
  have "(\<forall>c \<in> set snap. change_type c \<noteq> Added) \<Longrightarrow> filter (\<lambda>c. change_type c = Added) snap = []"
    by (induction snap) auto
  with a show ?thesis by auto
qed

theorem only_added_is_processed_witness:
  "search_handleSnapshot sample 1000
       [\<lparr>change_type = Modified, doc = \<lparr>doc_id = ''q1'', doc_data = [(''request'', JObj [(''type'', JStr ''emails'')])]\<rparr>\<rparr>,
        \<lparr>change_type = Removed, doc = \<lparr>doc_id = ''q2'', doc_data = []\<rparr>\<rparr>]
       \<lparr>records = [(''q1'', [(''request'', JObj [(''type'', JStr ''emails'')])])], searches = []\<rparr>
     = Returns \<lparr>records = [(''q1'', [(''request'', JObj [(''type'', JStr ''emails'')])])], searches = []\<rparr>"
  using only_added_is_processed [of sample 1000
      "[\<lparr>change_type = Modified, doc = \<lparr>doc_id = ''q1'', doc_data = [(''request'', JObj [(''type'', JStr ''emails'')])]\<rparr>\<rparr>,
        \<lparr>change_type = Removed, doc = \<lparr>doc_id = ''q2'', doc_data = []\<rparr>\<rparr>]"
      "\<lparr>records = [(''q1'', [(''request'', JObj [(''type'', JStr ''emails'')])])], searches = []\<rparr>"]
  by simp

text \<open>
  C6. Every hit of the list should be in the written mapping under its identifier. A hit
  whose \<^verbatim>\<open>_id\<close> is \<^verbatim>\<open>__proto__\<close> is not: the assignment \<^verbatim>\<open>temp[hit._id] = hit\<close> gives
  \<^verbatim>\<open>temp\<close> no property for it, and the mapping built from the two hits below holds the
  second only.
\<close>

theorem rekey_loses_proto_hit:
  "rekey [JObj [(''_id'', JStr ''__proto__''), (''_score'', JNum 2)],
          JObj [(''_id'', JStr ''mail-2''), (''_score'', JNum 1)]] []
     = Inr [(''mail-2'', JObj [(''_id'', JStr ''mail-2''), (''_score'', JNum 1)])]"
  by (simp add: hit_key_def read_prop_def own_def)

lemma hit_id_key: "hit_id hit = Some i \<Longrightarrow> hit_key hit = Inr i"
  by (auto simp: hit_id_def hit_key_def read_prop_def own_def split: jsvalue.splits option.splits)

lemma rekey_total:
  "\<forall>hit \<in> set hits. \<exists>key. hit_key hit = Inr key \<Longrightarrow> \<exists>temp'. rekey hits temp = Inr temp'"
  by (induction hits arbitrary: temp) auto

lemma rekey_keys:
  "rekey hits temp = Inr temp' \<Longrightarrow>
     fst ` set temp' =
       fst ` set temp \<union> {key. key \<noteq> ''__proto__'' \<and> (\<exists>hit \<in> set hits. hit_key hit = Inr key)}"
proof (induction hits arbitrary: temp)
  case Nil
  then show ?case by simp
next
  case (Cons hit hits)
  then obtain key where k: "hit_key hit = Inr key" by (auto split: sum.splits)
  show ?case
  proof (cases "key = ''__proto__''")
    case True
    with k Cons.prems have "rekey hits temp = Inr temp'" by simp
    from Cons.IH [OF this] k True show ?thesis by auto
  next
    case False
    with k Cons.prems have "rekey hits (AList.update key hit temp) = Inr temp'" by simp
    from Cons.IH [OF this] k False show ?thesis by (auto simp: AList.dom_update)
  qed
qed

lemma rekey_other:
  "rekey hits temp = Inr temp' \<Longrightarrow> \<forall>hit \<in> set hits. hit_key hit \<noteq> Inr key \<Longrightarrow>
     map_of temp' key = map_of temp key"
proof (induction hits arbitrary: temp)
  case Nil
  then show ?case by simp
next
  case (Cons hit hits)
  then obtain k where k: "hit_key hit = Inr k" by (auto split: sum.splits)
  have ne: "k \<noteq> key" using Cons.prems(2) k by auto
  show ?case
  proof (cases "k = ''__proto__''")
    case True
    with k Cons.prems(1) have "rekey hits temp = Inr temp'" by simp
    from Cons.IH [OF this] Cons.prems(2) show ?thesis by simp
  next
    case False
    with k Cons.prems(1) have "rekey hits (AList.update k hit temp) = Inr temp'" by simp
    from Cons.IH [OF this] Cons.prems(2) ne show ?thesis by (simp add: AList.update_conv')
  qed
qed

lemma rekey_maps_to_hit:
  "rekey hits temp = Inr temp' \<Longrightarrow> hit \<in> set hits \<Longrightarrow> hit_key hit = Inr key \<Longrightarrow>
     key \<noteq> ''__proto__'' \<Longrightarrow>
     \<exists>hit' \<in> set hits. hit_key hit' = Inr key \<and> map_of temp' key = Some hit'"
proof (induction hits arbitrary: temp hit)
  case Nil
  then show ?case by simp
next
  case (Cons x hits)
  then obtain k where k: "hit_key x = Inr k" by (auto split: sum.splits)
  show ?case
  proof (cases "\<exists>later \<in> set hits. hit_key later = Inr key")
    case True
    then obtain later where l: "later \<in> set hits" "hit_key later = Inr key" by blast
    have "\<exists>temp0. rekey hits temp0 = Inr temp'"
      using Cons.prems(1) k by (cases "k = ''__proto__''") auto
    then obtain temp0 where "rekey hits temp0 = Inr temp'" by blast
    from Cons.IH [OF this l Cons.prems(4)] show ?thesis by auto
  next
    case False
    then have no: "\<forall>h \<in> set hits. hit_key h \<noteq> Inr key" by blast
    with Cons.prems(2,3) have "hit = x" by auto
    with k Cons.prems(3) have kk: "k = key" by simp
    with Cons.prems(1,4) k have r: "rekey hits (AList.update key x temp) = Inr temp'" by simp
    have "map_of temp' key = map_of (AList.update key x temp) key"
      by (rule rekey_other [OF r no])
    with kk k show ?thesis by (simp add: AList.update_conv')
  qed
qed

text \<open>
  For every other list of hits the mapping is as it should be. Take a response with no
  error whose \<^verbatim>\<open>hits.hits\<close> is a list of hits, each an object with a string \<^verbatim>\<open>_id\<close> other
  than \<^verbatim>\<open>__proto__\<close>, and a control record that is in the store. Then \<^verbatim>\<open>respond\<close> writes
  the response to the record with a \<^verbatim>\<open>timestamp\<close> of the current time and with
  \<^verbatim>\<open>hits.hits\<close> replaced by an object whose keys are exactly the identifiers of the hits;
  each identifier holds a hit of that identifier, and a hit that is alone with its
  identifier is held under it.
\<close>

lemma respond_rekeys_hits:
  assumes "map_of (records s) ref = Some old"
    and "\<not> truthy (own r ''error'')"
    and "own r ''hits'' = JObj hs"
    and "own hs ''hits'' = JArr hits"
    and "\<forall>hit \<in> set hits. \<exists>i. hit_id hit = Some i \<and> i \<noteq> ''__proto__''"
  shows "\<exists>s' written hs' temp.
           respond h now ref (JObj r) s = Inr s' \<and>
           searches s' = searches s \<and>
           map_of (records s') ref = Some (AList.update (resKey h) (JObj written) old) \<and>
           own written ''timestamp'' = JDate now \<and>
           own written ''hits'' = JObj hs' \<and>
           own hs' ''hits'' = JObj temp \<and>
           fst ` set temp = {i. \<exists>hit \<in> set hits. hit_id hit = Some i} \<and>
           (\<forall>hit \<in> set hits. \<forall>i. hit_id hit = Some i \<longrightarrow>
              (\<exists>hit' \<in> set hits. hit_id hit' = Some i \<and> map_of temp i = Some hit')) \<and>
           (\<forall>hit \<in> set hits. \<forall>i. hit_id hit = Some i \<and>
              (\<forall>other \<in> set hits. hit_id other = Some i \<longrightarrow> other = hit) \<longrightarrow>
              map_of temp i = Some hit)"
proof -
  define pk where "pk = ''__proto__''"
  have ids: "\<exists>i. hit_id hit = Some i \<and> i \<noteq> pk" if mem: "hit \<in> set hits" for hit
    using bspec [OF assms(5) that] by (simp add: pk_def)
  have key_id: "hit_key hit = Inr k \<longleftrightarrow> hit_id hit = Some k" if mem: "hit \<in> set hits" for hit k
  proof -
    obtain i where i: "hit_id hit = Some i" using ids [OF mem] by auto
    have "hit_key hit = Inr i" using i by (rule hit_id_key)
    with i show ?thesis by simp
  qed
  have np: "hit_key hit \<noteq> Inr pk" if mem: "hit \<in> set hits" for hit
  proof
    assume "hit_key hit = Inr pk"
    then have "hit_id hit = Some pk" using key_id [OF mem, of pk] by simp
    with ids [OF mem] show False by auto
  qed
  have tot: "\<forall>hit \<in> set hits. \<exists>key. hit_key hit = Inr key"
  proof
    fix hit assume m: "hit \<in> set hits"
    obtain i where "hit_id hit = Some i" using ids [OF m] by auto
    then have "hit_key hit = Inr i" by (rule hit_id_key)
    then show "\<exists>key. hit_key hit = Inr key" ..
  qed
  obtain temp where t: "rekey hits [] = Inr temp"
    using rekey_total [OF tot] by auto
  define hs' where "hs' = AList.update ''hits'' (JObj temp) hs"
  define written where "written = AList.update ''timestamp'' (JDate now) (AList.update ''hits'' (JObj hs') r)"
  define s' where "s' = ref_update ref [(resKey h, JObj written)] s"
  have hh: "hits_hits (JObj r) = JArr hits"
    using assms(3,4) by (simp add: hits_hits_def read_prop_def)
  have sh: "set_hits_hits (JObj r) temp = JObj (AList.update ''hits'' (JObj hs') r)"
    using assms(3) by (simp add: set_hits_hits_def hs'_def)
  have pr: "\<not> prototype_replaced hits"
    using np by (simp add: prototype_replaced_def list_ex_iff pk_def)
  have 1: "respond h now ref (JObj r) s = Inr s'"
    using assms(2) t pr
    by (simp add: respond_def read_prop_def hh sh iterate_def send_def s'_def written_def)
  have 2: "searches s' = searches s"
    by (simp add: s'_def searches_ref_update)
  have 3: "map_of (records s') ref = Some (AList.update (resKey h) (JObj written) old)"
    using assms(1) by (simp add: s'_def map_of_ref_update)
  have 4: "own written ''timestamp'' = JDate now"
    by (simp add: written_def own_def AList.update_conv')
  have 5: "own written ''hits'' = JObj hs'"
    by (simp add: written_def own_def AList.update_conv')
  have 6: "own hs' ''hits'' = JObj temp"
    by (simp add: hs'_def own_def AList.update_conv')
  have keys: "fst ` set temp = {key. key \<noteq> pk \<and> (\<exists>hit \<in> set hits. hit_key hit = Inr key)}"
    using rekey_keys [OF t] by (simp add: pk_def)
  have 7: "fst ` set temp = {i. \<exists>hit \<in> set hits. hit_id hit = Some i}"
  proof (rule set_eqI)
    fix i
    show "i \<in> fst ` set temp \<longleftrightarrow> i \<in> {i. \<exists>hit \<in> set hits. hit_id hit = Some i}"
    proof
      assume "i \<in> fst ` set temp"
      then obtain hit where "hit \<in> set hits" "hit_key hit = Inr i"
        unfolding keys by auto
      then show "i \<in> {i. \<exists>hit \<in> set hits. hit_id hit = Some i}"
        using key_id [of hit i] by auto
    next
      assume "i \<in> {i. \<exists>hit \<in> set hits. hit_id hit = Some i}"
      then obtain hit where m: "hit \<in> set hits" and i: "hit_id hit = Some i" by auto
      have "hit_key hit = Inr i" using i by (rule hit_id_key)
      moreover have "i \<noteq> pk" using np [OF m] calculation by auto
      ultimately show "i \<in> fst ` set temp"
        unfolding keys using m by auto
    qed
  qed
  have 8: "\<forall>hit \<in> set hits. \<forall>i. hit_id hit = Some i \<longrightarrow>
              (\<exists>hit' \<in> set hits. hit_id hit' = Some i \<and> map_of temp i = Some hit')"
  proof (intro ballI allI impI)
    fix hit i
    assume m: "hit \<in> set hits" and i: "hit_id hit = Some i"
    have k: "hit_key hit = Inr i" using i by (rule hit_id_key)
    have "i \<noteq> ''__proto__''" using np [OF m] k by (auto simp: pk_def)
    from rekey_maps_to_hit [OF t m k this]
    obtain hit' where h': "hit' \<in> set hits" "hit_key hit' = Inr i" "map_of temp i = Some hit'" by auto
    have "hit_id hit' = Some i" using key_id [OF h'(1), of i] h'(2) by simp
    with h' show "\<exists>hit' \<in> set hits. hit_id hit' = Some i \<and> map_of temp i = Some hit'"
      by auto
  qed
  have 9: "\<forall>hit \<in> set hits. \<forall>i. hit_id hit = Some i \<and>
              (\<forall>other \<in> set hits. hit_id other = Some i \<longrightarrow> other = hit) \<longrightarrow>
              map_of temp i = Some hit"
  proof (intro ballI allI impI)
    fix hit i
    assume m: "hit \<in> set hits"
      and a: "hit_id hit = Some i \<and> (\<forall>other \<in> set hits. hit_id other = Some i \<longrightarrow> other = hit)"
    from a have i: "hit_id hit = Some i" ..
    from a have u: "\<forall>other \<in> set hits. hit_id other = Some i \<longrightarrow> other = hit" ..
    from bspec [OF 8 m] i have "\<exists>hit' \<in> set hits. hit_id hit' = Some i \<and> map_of temp i = Some hit'"
      by simp
    then obtain hit' where h': "hit' \<in> set hits" "hit_id hit' = Some i" "map_of temp i = Some hit'"
      by (elim bexE conjE)
    from bspec [OF u h'(1)] h'(2) have "hit' = hit" by simp
    with h'(3) show "map_of temp i = Some hit" by simp
  qed
  show ?thesis
    apply (rule exI [of _ s'])
    apply (rule exI [of _ written])
    apply (rule exI [of _ hs'])
    apply (rule exI [of _ temp])
    apply (intro conjI)
            apply (rule 1)
           apply (rule 2)
          apply (rule 3)
         apply (rule 4)
        apply (rule 5)
       apply (rule 6)
      apply (rule 7)
     apply (rule 8)
    apply (rule 9)
    done
qed

lemma respond_rekeys_hits_example:
  "respond sample 1000 ''q1''
       (JObj [(''took'', JNum 3),
              (''hits'', JObj [(''total'', JNum 2),
                               (''hits'', JArr [JObj [(''_id'', JStr ''mail-1''), (''_score'', JNum 2)],
                                                JObj [(''_id'', JStr ''mail-2''), (''_score'', JNum 1)]])])])
       \<lparr>records = [(''q1'', [(''request'', JStr ''x'')])], searches = []\<rparr>
     = Inr \<lparr>records =
               [(''q1'',
                 [(''request'', JStr ''x''),
                  (''response'',
                   JObj [(''took'', JNum 3),
                         (''hits'', JObj [(''total'', JNum 2),
                                          (''hits'', JObj [(''mail-1'', JObj [(''_id'', JStr ''mail-1''), (''_score'', JNum 2)]),
                                                           (''mail-2'', JObj [(''_id'', JStr ''mail-2''), (''_score'', JNum 1)])])]),
                         (''timestamp'', JDate 1000)])])],
             searches = []\<rparr>"
  by (simp add: hit_key_def read_prop_def own_def respond_def hits_hits_def set_hits_hits_def
      iterate_def send_def ref_update_def sample_def prototype_replaced_def)

section \<open>Properties of the cleanup sweep\<close>

lemma fold_ref_delete:
  "map_of (records (fold (\<lambda>item. ref_delete (fst item)) items s)) k =
     (if k \<in> fst ` set items then None else map_of (records s) k)"
  by (induction items arbitrary: s) (auto simp: ref_delete_def AList.delete_conv')

lemma fold_ref_delete_searches:
  "searches (fold (\<lambda>item. ref_delete (fst item)) items s) = searches s"
  by (induction items arbitrary: s) (auto simp: ref_delete_def)

lemma fold_ref_delete_distinct:
  "distinct (map fst (records s)) \<Longrightarrow>
     distinct (map fst (records (fold (\<lambda>item. ref_delete (fst item)) items s)))"
  by (induction items arbitrary: s) (auto simp: ref_delete_def AList.distinct_delete)

lemma map_of_cleanup:
  assumes "distinct (map fst (records s))"
  shows "map_of (records (cleanup h now s)) ref =
           (case map_of (records s) ref of
              None \<Rightarrow> None
            | Some fs \<Rightarrow> if selected (resKey h) (now - cleanupInterval h) (ref, fs) then None else Some fs)"
proof (cases "map_of (records s) ref")
  case None
  then show ?thesis
    by (simp add: cleanup_def Let_def fold_ref_delete)
next
  case (Some fs)
  have "\<And>fs'. (ref, fs') \<in> set (records s) \<Longrightarrow> fs' = fs"
    using assms Some by (metis map_of_is_SomeI option.inject)
  moreover have "(ref, fs) \<in> set (records s)"
    using Some by (rule map_of_SomeD)
  ultimately have "ref \<in> fst ` set (filter (selected (resKey h) (now - cleanupInterval h)) (records s))
      \<longleftrightarrow> selected (resKey h) (now - cleanupInterval h) (ref, fs)"
    (is "?in \<longleftrightarrow> ?sel")
  proof -
    assume only: "\<And>fs'. (ref, fs') \<in> set (records s) \<Longrightarrow> fs' = fs"
      and mem: "(ref, fs) \<in> set (records s)"
    show ?thesis
    proof
      assume ?in
      then obtain fs' where in': "(ref, fs') \<in> set (records s)"
        and sel': "selected (resKey h) (now - cleanupInterval h) (ref, fs')"
        by auto
      from only [OF in'] sel' show ?sel
        by simp
    next
      assume ?sel
      with mem have "(ref, fs) \<in> set (filter (selected (resKey h) (now - cleanupInterval h)) (records s))"
        by simp
      then show ?in
        by (rule image_eqI [rotated]) simp
    qed
  qed
  with Some show ?thesis
    by (simp add: cleanup_def Let_def fold_ref_delete)
qed

lemma distinct_cleanup:
  "distinct (map fst (records s)) \<Longrightarrow> distinct (map fst (records (cleanup h now s)))"
  by (simp add: cleanup_def Let_def fold_ref_delete_distinct)

text \<open>
  C8. In a control collection (ids are unique), a sweep at time \<open>now\<close> deletes every
  record whose response timestamp is a date before \<open>now\<close> minus the retention interval
  and keeps, unchanged, every record whose response timestamp is a date after it.
\<close>

theorem cleanup_deletes_old_keeps_new:
  assumes "distinct (map fst (records s))"
    and "map_of (records s) ref = Some fs"
    and "timestamp_field (resKey h) fs = Some (JDate t)"
  shows "(t < now - cleanupInterval h \<longrightarrow> map_of (records (cleanup h now s)) ref = None) \<and>
         (now - cleanupInterval h < t \<longrightarrow> map_of (records (cleanup h now s)) ref = Some fs)"
  using assms(2,3) by (auto simp: map_of_cleanup [OF assms(1)] selected_def)

theorem cleanup_deletes_old_keeps_new_witness:
  "timestamp_field (resKey sample) [(''response'', JObj [(''total'', JNum 1), (''timestamp'', JDate 39999)])]
     = Some (JDate 39999) \<and>
   (39999::int) < 100000 - cleanupInterval sample \<and>
   100000 - cleanupInterval sample < (40001::int) \<and>
   records (cleanup sample 100000
       \<lparr>records = [(''old'', [(''response'', JObj [(''total'', JNum 1), (''timestamp'', JDate 39999)])]),
                   (''new'', [(''response'', JObj [(''total'', JNum 1), (''timestamp'', JDate 40001)])])],
         searches = []\<rparr>)
     = [(''new'', [(''response'', JObj [(''total'', JNum 1), (''timestamp'', JDate 40001)])])]"
proof -
  let ?s = "\<lparr>records = [(''old'', [(''response'', JObj [(''total'', JNum 1), (''timestamp'', JDate 39999)])]),
                   (''new'', [(''response'', JObj [(''total'', JNum 1), (''timestamp'', JDate 40001)])])],
         searches = []\<rparr>"
  have d: "distinct (map fst (records ?s))" by simp
  have o: "map_of (records ?s) ''old'' = Some [(''response'', JObj [(''total'', JNum 1), (''timestamp'', JDate 39999)])]"
    by simp
  have n: "map_of (records ?s) ''new'' = Some [(''response'', JObj [(''total'', JNum 1), (''timestamp'', JDate 40001)])]"
    by simp
  have ot: "timestamp_field (resKey sample) [(''response'', JObj [(''total'', JNum 1), (''timestamp'', JDate 39999)])]
     = Some (JDate 39999)"
    by (simp add: timestamp_field_def sample_def)
  have nt: "timestamp_field (resKey sample) [(''response'', JObj [(''total'', JNum 1), (''timestamp'', JDate 40001)])]
     = Some (JDate 40001)"
    by (simp add: timestamp_field_def sample_def)
  show ?thesis
    using cleanup_deletes_old_keeps_new [OF d o ot, of 100000]
      cleanup_deletes_old_keeps_new [OF d n nt, of 100000]
    by (simp add: cleanup_def selected_def timestamp_field_def ref_delete_def sample_def)
qed

lemma cleanup_keeps_unstamped:
  assumes "distinct (map fst (records s))"
    and "map_of (records s) ref = Some fs"
    and "timestamp_field (resKey h) fs = None"
  shows "map_of (records (cleanup h now s)) ref = Some fs"
  using assms(2,3) by (simp add: map_of_cleanup [OF assms(1)] selected_def)

lemma sweeps_keep_unstamped:
  assumes "distinct (map fst (records s))"
    and "map_of (records s) ref = Some fs"
    and "timestamp_field (resKey h) fs = None"
  shows "map_of (records (fold (cleanup h) sweeps s)) ref = Some fs"
  using assms
proof (induction sweeps arbitrary: s)
  case Nil
  then show ?case by simp
next
  case (Cons now sweeps)
  have "map_of (records (cleanup h now s)) ref = Some fs"
    using Cons.prems by (rule cleanup_keeps_unstamped)
  with Cons.IH [OF distinct_cleanup [OF Cons.prems(1)]] Cons.prems(3)
  show ?case by simp
qed

lemma distinct_ref_update:
  "distinct (map fst (records s)) \<Longrightarrow> distinct (map fst (records (ref_update ref data s)))"
  by (simp add: ref_update_def AList.distinct_update split: option.splits)

text \<open>
  C9. When \<^verbatim>\<open>respondError\<close> writes to a record, the response field it leaves is
  \<^verbatim>\<open>{total: 0, error: message}\<close> and nothing else, so the record has no response
  timestamp, and no sequence of sweeps, at whatever times, deletes or changes it.
\<close>

theorem error_response_never_swept:
  assumes "distinct (map fst (records s))"
    and "map_of (records s) ref = Some old"
    and "respondError h ref message s = Inr s'"
  shows "\<exists>msg. map_of (records s') ref =
             Some (AList.update (resKey h) (JObj [(''total'', JNum 0), (''error'', JStr msg)]) old) \<and>
           timestamp_field (resKey h)
             (AList.update (resKey h) (JObj [(''total'', JNum 0), (''error'', JStr msg)]) old) = None \<and>
           (\<forall>sweeps. map_of (records (fold (cleanup h) sweeps s')) ref = map_of (records s') ref)"
proof -
  obtain msg where t: "toString message = Inr msg"
    and s': "s' = ref_update ref [(resKey h, JObj [(''total'', JNum 0), (''error'', JStr msg)])] s"
    using assms(3) by (auto simp: respondError_def split: sum.splits)
  let ?new = "AList.update (resKey h) (JObj [(''total'', JNum 0), (''error'', JStr msg)]) old"
  have 1: "map_of (records s') ref = Some ?new"
    using assms(2) by (simp add: s' map_of_ref_update)
  have 2: "timestamp_field (resKey h) ?new = None"
    by (simp add: timestamp_field_def AList.update_conv')
  have d: "distinct (map fst (records s'))"
    unfolding s' using assms(1) by (rule distinct_ref_update)
  have 3: "\<forall>sweeps. map_of (records (fold (cleanup h) sweeps s')) ref = map_of (records s') ref"
    using sweeps_keep_unstamped [OF d 1 2] 1 by simp
  from 1 2 3 show ?thesis by blast
qed

theorem error_response_never_swept_witness:
  "respondError sample ''q1'' (JStr ''no index'') \<lparr>records = [(''q1'', [(''request'', JStr ''x'')])], searches = []\<rparr>
     = Inr \<lparr>records = [(''q1'', [(''request'', JStr ''x''),
                                   (''response'', JObj [(''total'', JNum 0), (''error'', JStr ''no index'')])])],
             searches = []\<rparr> \<and>
   records (fold (cleanup sample) [100000, 9999999]
       \<lparr>records = [(''q1'', [(''request'', JStr ''x''),
                             (''response'', JObj [(''total'', JNum 0), (''error'', JStr ''no index'')])])],
         searches = []\<rparr>)
     = [(''q1'', [(''request'', JStr ''x''),
                  (''response'', JObj [(''total'', JNum 0), (''error'', JStr ''no index'')])])]"
proof -
  have d: "distinct (map fst (records \<lparr>records = [(''q1'', [(''request'', JStr ''x'')])], searches = []\<rparr>))"
    by simp
  have m: "map_of (records \<lparr>records = [(''q1'', [(''request'', JStr ''x'')])], searches = []\<rparr>) ''q1''
             = Some [(''request'', JStr ''x'')]"
    by simp
  have r: "respondError sample ''q1'' (JStr ''no index'') \<lparr>records = [(''q1'', [(''request'', JStr ''x'')])], searches = []\<rparr>
     = Inr \<lparr>records = [(''q1'', [(''request'', JStr ''x''),
                                   (''response'', JObj [(''total'', JNum 0), (''error'', JStr ''no index'')])])],
             searches = []\<rparr>"
    by (simp add: respondError_def toString_def ref_update_def sample_def)
  show ?thesis
    using r error_response_never_swept [OF d m r]
    by (simp add: cleanup_def selected_def timestamp_field_def sample_def)
qed

end
